theory Spec2Isabelle
  imports Main "HOL-Library.Sublist" "HOL-Library.Word" "HOL-Library.Multiset"
begin

section \<open>Go strings, UTF-8 and the path functions the processor calls\<close>

text \<open>
  A Go string and a Go byte slice are sequences of bytes; both are modelled as
  \<^typ>\<open>string\<close> (a \<^typ>\<open>char\<close> is one byte, \<open>of_char\<close> reads its value).
  A rune is a code point, modelled as a natural number.
\<close>

type_synonym rune = nat

abbreviation byte :: "char \<Rightarrow> nat" where
  "byte c \<equiv> of_char c"

definition utf8BOM :: string where
  "utf8BOM = [CHR 0xEF, CHR 0xBB, CHR 0xBF]"

definition RuneError :: rune where
  "RuneError = 0xFFFD"

text \<open>
  Package unicode/utf8 of the Go standard library. The first byte selects the width and
  the range accepted for the second byte (the table \<open>acceptRanges\<close>); every further
  byte is a continuation byte \<open>0x80..0xBF\<close>. \<open>DecodeRune\<close> returns \<open>None\<close> where Go
  returns \<open>(RuneError, 1)\<close>: the bytes at the front are not one well-formed encoding.
\<close>

definition locb :: nat where "locb = 0x80"
definition hicb :: nat where "hicb = 0xBF"

definition accept_lo :: "nat \<Rightarrow> nat" where
  "accept_lo b0 = (if b0 = 0xE0 then 0xA0 else if b0 = 0xF0 then 0x90 else locb)"

definition accept_hi :: "nat \<Rightarrow> nat" where
  "accept_hi b0 = (if b0 = 0xED then 0x9F else if b0 = 0xF4 then 0x8F else hicb)"

definition cont :: "char \<Rightarrow> bool" where
  "cont c \<longleftrightarrow> locb \<le> byte c \<and> byte c \<le> hicb"

definition second :: "nat \<Rightarrow> char \<Rightarrow> bool" where
  "second b0 c \<longleftrightarrow> accept_lo b0 \<le> byte c \<and> byte c \<le> accept_hi b0"

fun DecodeRune :: "string \<Rightarrow> (rune \<times> string) option" where
  "DecodeRune [] = None"
| "DecodeRune (c0 # cs) =
     (if byte c0 < 0x80 then Some (byte c0, cs)
      else if 0xC2 \<le> byte c0 \<and> byte c0 \<le> 0xDF then
        (case cs of
           c1 # r \<Rightarrow>
             if second (byte c0) c1
             then Some ((byte c0 mod 32) * 64 + byte c1 mod 64, r) else None
         | _ \<Rightarrow> None)
      else if 0xE0 \<le> byte c0 \<and> byte c0 \<le> 0xEF then
        (case cs of
           c1 # c2 # r \<Rightarrow>
             if second (byte c0) c1 \<and> cont c2
             then Some ((byte c0 mod 16) * 4096 + (byte c1 mod 64) * 64 + byte c2 mod 64, r)
             else None
         | _ \<Rightarrow> None)
      else if 0xF0 \<le> byte c0 \<and> byte c0 \<le> 0xF4 then
        (case cs of
           c1 # c2 # c3 # r \<Rightarrow>
             if second (byte c0) c1 \<and> cont c2 \<and> cont c3
             then Some ((byte c0 mod 8) * 262144 + (byte c1 mod 64) * 4096
                        + (byte c2 mod 64) * 64 + byte c3 mod 64, r)
             else None
         | _ \<Rightarrow> None)
      else None)"

text \<open>\<open>utf8.Valid\<close> and \<open>utf8.ValidString\<close>: every encoding in the sequence is well formed.\<close>

function utf8_Valid :: "string \<Rightarrow> bool" where
  "utf8_Valid [] = True"
| "utf8_Valid (c # cs) =
     (case DecodeRune (c # cs) of None \<Rightarrow> False | Some (r, rest) \<Rightarrow> utf8_Valid rest)"
  by pat_completeness auto
termination
  by (relation "measure length") (auto split: if_splits list.splits)

text \<open>
  The runes a \<open>for _, r := range s\<close> loop yields: a byte that starts no well-formed
  encoding yields \<open>RuneError\<close> and the loop advances by one byte.
\<close>

function runes :: "string \<Rightarrow> rune list" where
  "runes [] = []"
| "runes (c # cs) =
     (case DecodeRune (c # cs) of
        None \<Rightarrow> RuneError # runes cs
      | Some (r, rest) \<Rightarrow> r # runes rest)"
  by pat_completeness auto
termination
  by (relation "measure length") (auto split: if_splits list.splits)

text \<open>
  \<open>utf8.AppendRune\<close>, which \<open>strings.Builder.WriteRune\<close> calls: a surrogate or a value
  above \<open>MaxRune\<close> is written as the encoding of \<open>RuneError\<close>.
\<close>

definition EncodeRune :: "rune \<Rightarrow> string" where
  "EncodeRune r =
     (if r \<le> 0x7F then [char_of r]
      else if r \<le> 0x7FF then [char_of (0xC0 + r div 64), char_of (0x80 + r mod 64)]
      else if r > 0x10FFFF \<or> (0xD800 \<le> r \<and> r \<le> 0xDFFF) then [CHR 0xEF, CHR 0xBF, CHR 0xBD]
      else if r \<le> 0xFFFF then
        [char_of (0xE0 + r div 4096), char_of (0x80 + (r div 64) mod 64),
         char_of (0x80 + r mod 64)]
      else
        [char_of (0xF0 + r div 262144), char_of (0x80 + (r div 4096) mod 64),
         char_of (0x80 + (r div 64) mod 64), char_of (0x80 + r mod 64)])"

text \<open>
  \<open>unicode.IsSpace\<close>: in Latin-1 the six ASCII spaces, U+0085 and U+00A0; beyond it the
  code points of the property White_Space.
\<close>

definition IsSpace :: "rune \<Rightarrow> bool" where
  "IsSpace r =
     (if r \<le> 0xFF then r \<in> {0x09, 0x0A, 0x0B, 0x0C, 0x0D, 0x20, 0x85, 0xA0}
      else r = 0x1680 \<or> (0x2000 \<le> r \<and> r \<le> 0x200A) \<or> r = 0x2028 \<or> r = 0x2029
           \<or> r = 0x202F \<or> r = 0x205F \<or> r = 0x3000)"

text \<open>
  \<open>strings.TrimSpace\<close> removes the leading and the trailing runes that are spaces. The
  processor only calls it on the contents of a \<open>strings.Builder\<close> filled by \<open>WriteRune\<close>,
  so it is modelled on the runes written to the builder.
\<close>

definition TrimSpace :: "rune list \<Rightarrow> rune list" where
  "TrimSpace rs = rev (dropWhile IsSpace (rev (dropWhile IsSpace rs)))"

text \<open>\<open>bytes.TrimPrefix\<close>, \<open>strings.TrimPrefix\<close>, \<open>strings.HasSuffix\<close>, \<open>strings.Contains\<close>.\<close>

definition TrimPrefix :: "string \<Rightarrow> string \<Rightarrow> string" where
  "TrimPrefix s p = (if prefix p s then drop (length p) s else s)"

definition HasSuffix :: "string \<Rightarrow> string \<Rightarrow> bool" where
  "HasSuffix s suf = suffix suf s"

fun Contains :: "string \<Rightarrow> string \<Rightarrow> bool" where
  "Contains [] sub = (sub = [])"
| "Contains (c # cs) sub = (prefix sub (c # cs) \<or> Contains cs sub)"

text \<open>
  \<open>strings.ToLower\<close>, modelled on the ASCII letters; a byte that is no ASCII capital is
  left as it is.
\<close>

definition lowerByte :: "char \<Rightarrow> char" where
  "lowerByte c =
     (case map_of (zip ''ABCDEFGHIJKLMNOPQRSTUVWXYZ'' ''abcdefghijklmnopqrstuvwxyz'') c of
        Some d \<Rightarrow> d
      | None \<Rightarrow> c)"

definition ToLower :: "string \<Rightarrow> string" where
  "ToLower s = map lowerByte s"

text \<open>
  Package path/filepath with the separator \<open>/\<close>. \<open>Ext\<close> scans from the end of the path
  for a dot and stops at a separator. \<open>Join\<close> and \<open>Rel\<close> are modelled without the
  lexical cleaning of \<open>filepath.Clean\<close>: the processor joins its input directory with
  relative paths that \<open>filepath.Rel\<close> produced, and takes such a join apart again.
\<close>

definition Separator :: char where
  "Separator = CHR ''/''"

fun Ext_scan :: "string \<Rightarrow> string \<Rightarrow> string" where
  "Ext_scan [] acc = []"
| "Ext_scan (c # cs) acc =
     (if c = Separator then []
      else if c = CHR ''.'' then c # acc
      else Ext_scan cs (c # acc))"

definition Ext :: "string \<Rightarrow> string" where
  "Ext path = Ext_scan (rev path) []"

definition ToSlash :: "string \<Rightarrow> string" where
  "ToSlash path =
     (if Separator = CHR ''/'' then path
      else map (\<lambda>c. if c = Separator then CHR ''/'' else c) path)"

definition Join :: "string \<Rightarrow> string \<Rightarrow> string" where
  "Join dir rel =
     (if dir = [] then rel else if rel = [] then dir else dir @ [Separator] @ rel)"

datatype error =
    StatError
  | OpenError
  | ReadError
  | WalkError
  | RelError
  | InvalidUTF8File string
  | InvalidUTF8Content

definition Rel :: "string \<Rightarrow> string \<Rightarrow> error + string" where
  "Rel base targ =
     (if base = [] then Inr targ
      else if targ = base then Inr ''.''
      else if prefix (base @ [Separator]) targ then Inr (drop (length base + 1) targ)
      else Inl RelError)"

section \<open>Package utils\<close>

definition BinaryFileTypes :: "string \<rightharpoonup> string" where
  "BinaryFileTypes = map_of
     [(''.jpg'', ''Image''), (''.jpeg'', ''Image''), (''.png'', ''Image''),
      (''.gif'', ''Image''), (''.bmp'', ''Image''), (''.webp'', ''Image''),
      (''.svg'', ''SVG Image''), (''.wasm'', ''WebAssembly''), (''.pdf'', ''PDF''),
      (''.doc'', ''Word Document''), (''.docx'', ''Word Document''),
      (''.xls'', ''Excel Spreadsheet''), (''.xlsx'', ''Excel Spreadsheet''),
      (''.ppt'', ''PowerPoint Presentation''), (''.pptx'', ''PowerPoint Presentation''),
      (''.zip'', ''Compressed Archive''), (''.rar'', ''Compressed Archive''),
      (''.7z'', ''Compressed Archive''), (''.exe'', ''Executable''),
      (''.dll'', ''Dynamic-link Library''), (''.so'', ''Shared Object''),
      (''.dylib'', ''Dynamic Library'')]"

definition WhitespaceDependentExtensions :: "string \<rightharpoonup> bool" where
  "WhitespaceDependentExtensions = map_of
     [(''.py'', True), (''.yaml'', True), (''.yml'', True), (''.jade'', True),
      (''.haml'', True), (''.slim'', True), (''.coffee'', True), (''.pug'', True),
      (''.styl'', True), (''.gd'', True)]"

text \<open>
  What a run receives from outside the repository: what \<open>os.Stat\<close> returns for a path
  (an error or the size), what \<open>os.Open\<close> followed by one \<open>Read\<close> into a buffer of 512
  bytes returns, what \<open>os.ReadFile\<close> returns, the function \<open>http.DetectContentType\<close> of
  the standard library, the sequence of calls \<open>filepath.Walk\<close> makes to its callback for a
  root (an error, a directory or a file, each with its path), the matching of a path
  against compiled gitignore lines (package go-gitignore), and the order in which the
  worker goroutines deliver their results (the paths dispatched, in arrival order).
\<close>

datatype entry = WalkErr error | DirEntry string | FileEntry string

record world =
  os_Stat :: "string \<Rightarrow> error + int"
  os_Open_Read :: "string \<Rightarrow> error + string"
  os_ReadFile :: "string \<Rightarrow> error + string"
  DetectContentType :: "string \<Rightarrow> string"
  Walk :: "string \<Rightarrow> entry list"
  MatchesPath :: "string list \<Rightarrow> string \<Rightarrow> bool"
  arrival :: "string list \<Rightarrow> string list"

definition IsTextFile :: "world \<Rightarrow> string \<Rightarrow> error + bool" where
  "IsTextFile fs path =
     (case os_Open_Read fs path of
        Inl err \<Rightarrow> Inl err
      | Inr buffer \<Rightarrow>
          (let contentType = DetectContentType fs (take 512 buffer) in
           if HasSuffix (ToLower path) ''.svg'' then Inr True
           else Inr (\<not> Contains contentType ''binary'')))"

definition GetFileType :: "string \<Rightarrow> string" where
  "GetFileType path =
     (case BinaryFileTypes (ToLower (Ext path)) of
        Some fileType \<Rightarrow> fileType
      | None \<Rightarrow> ''Binary'')"

definition ShouldTreatAsBinary :: "string \<Rightarrow> bool" where
  "ShouldTreatAsBinary path = (BinaryFileTypes (ToLower (Ext path)) \<noteq> None)"

definition IsWhitespaceSensitive :: "string \<Rightarrow> bool" where
  "IsWhitespaceSensitive ext =
     (case WhitespaceDependentExtensions ext of Some b \<Rightarrow> b | None \<Rightarrow> False)"

definition isWhitespace :: "rune \<Rightarrow> bool" where
  "isWhitespace r \<longleftrightarrow> r \<in> {0x20, 0x09, 0x0A, 0x0B, 0x0C, 0x0D}"

text \<open>
  The loop of \<open>RemoveWhitespace\<close>: \<open>space\<close> is the flag of the source, the result is what
  the loop writes to the builder from here on.
\<close>

fun RemoveWhitespace_loop :: "bool \<Rightarrow> rune list \<Rightarrow> rune list" where
  "RemoveWhitespace_loop space [] = []"
| "RemoveWhitespace_loop space (r # rs) =
     (if isWhitespace r then
        (if \<not> space then 0x20 # RemoveWhitespace_loop True rs
         else RemoveWhitespace_loop True rs)
      else r # RemoveWhitespace_loop False rs)"

definition WriteRunes :: "rune list \<Rightarrow> string" where
  "WriteRunes rs = concat (map EncodeRune rs)"

definition RemoveWhitespace :: "string \<Rightarrow> string" where
  "RemoveWhitespace s = WriteRunes (TrimSpace (RemoveWhitespace_loop False (runes s)))"

section \<open>Package processor: rendering one file\<close>

record ProcessorConfig =
  InputDir :: string
  OutputFile :: string
  UseDefaultIgnores :: bool
  cfg_RemoveWhitespace :: bool
  ShowOutputFiles :: bool
  IgnoreFile :: string
  Split :: bool
  MaxFileSizeMB :: int
  OutputFilePattern :: string
  ChunkSize :: int

record FileResult =
  RelativePath :: string
  Content :: string
  FileType :: string
  Size :: int
  Error :: "error option"

definition fence3 :: string where
  "fence3 = [CHR 0x60, CHR 0x60, CHR 0x60]"

definition fence4 :: string where
  "fence4 = [CHR 0x60, CHR 0x60, CHR 0x60, CHR 0x60]"

definition processTextFile :: "world \<Rightarrow> ProcessorConfig \<Rightarrow> string \<Rightarrow> error + string" where
  "processTextFile fs cfg path =
     (case os_ReadFile fs path of
        Inl err \<Rightarrow> Inl err
      | Inr raw \<Rightarrow>
          (let content = TrimPrefix raw utf8BOM in
           if \<not> utf8_Valid content then Inl (InvalidUTF8File path)
           else
             (let ext = Ext path;
                  contentStr =
                    (if cfg_RemoveWhitespace cfg \<and> \<not> IsWhitespaceSensitive ext
                     then RemoveWhitespace content else content)
              in case Rel (InputDir cfg) path of
                   Inl err \<Rightarrow> Inl err
                 | Inr relPath \<Rightarrow>
                     Inr (''# '' @ relPath @ ''\<newline>\<newline>'' @
                          (if ext = ''.md'' \<or> ext = ''.markdown''
                           then fence4 @ ''md\<newline>'' @ contentStr @ ''\<newline>'' @ fence4
                                @ ''\<newline>\<newline>''
                           else fence3 @ TrimPrefix ext ''.'' @ ''\<newline>'' @ contentStr
                                @ ''\<newline>'' @ fence3 @ ''\<newline>\<newline>'')))))"

definition formatBinaryFileContent :: "string \<Rightarrow> string \<Rightarrow> string" where
  "formatBinaryFileContent path fileType =
     (let description =
            (if HasSuffix (ToLower path) ''.svg''
             then ''This is a file of type: '' @ fileType
             else ''This is a binary file of type: '' @ fileType)
      in ''# '' @ path @ ''\<newline>\<newline>'' @ description @ ''\<newline>\<newline>'')"

definition processFile :: "world \<Rightarrow> ProcessorConfig \<Rightarrow> string \<Rightarrow> FileResult" where
  "processFile fs cfg relPath =
     (let result = \<lparr>RelativePath = relPath, Content = [], FileType = [], Size = 0,
                     Error = None\<rparr>;
          fullPath = Join (InputDir cfg) relPath
      in case os_Stat fs fullPath of
           Inl err \<Rightarrow> result\<lparr>Error := Some err\<rparr>
         | Inr sz \<Rightarrow>
             (let result = result\<lparr>Size := sz\<rparr>
              in case IsTextFile fs fullPath of
                   Inl err \<Rightarrow> result\<lparr>Error := Some err\<rparr>
                 | Inr isText \<Rightarrow>
                     if isText \<and> \<not> ShouldTreatAsBinary fullPath then
                       (let result = result\<lparr>FileType := ''text''\<rparr>
                        in case processTextFile fs cfg fullPath of
                             Inl err \<Rightarrow> result\<lparr>Error := Some err\<rparr>
                           | Inr content \<Rightarrow> result\<lparr>Content := content\<rparr>)
                     else
                       (let result = result\<lparr>FileType := GetFileType fullPath\<rparr>
                        in result\<lparr>Content := formatBinaryFileContent relPath (FileType result)\<rparr>)))"

section \<open>Package utils: the ignore matcher\<close>

definition DefaultIgnores :: "string list" where
  "DefaultIgnores =
     [''node_modules'', ''package-lock.json'', ''npm-debug.log'',
      ''yarn.lock'', ''yarn-error.log'',
      ''pnpm-lock.yaml'',
      ''bun.lockb'',
      ''deno.lock'',
      ''vendor'', ''composer.lock'',
      ''__pycache__'', ''*.pyc'', ''*.pyo'', ''*.pyd'', ''.Python'', ''pip-log.txt'',
      ''pip-delete-this-directory.txt'', ''.venv'', ''venv'', ''ENV'', ''env'',
      ''.godot'', ''*.import'',
      ''Gemfile.lock'', ''.bundle'',
      ''target'', ''*.class'',
      ''.gradle'', ''build'',
      ''pom.xml.tag'', ''pom.xml.releaseBackup'', ''pom.xml.versionsBackup'', ''pom.xml.next'',
      ''bin'', ''obj'', ''*.suo'', ''*.user'',
      ''go.sum'',
      ''Cargo.lock'', ''target'',
      ''.git'', ''.svn'', ''.hg'', ''.DS_Store'', ''Thumbs.db'',
      ''.env'', ''.env.local'', ''.env.development.local'', ''.env.test.local'',
      ''.env.production.local'', ''*.env'', ''*.env.*'',
      ''.svelte-kit'', ''.next'', ''.nuxt'', ''.vuepress'', ''.cache'', ''dist'', ''tmp'',
      ''codebase.md'',
      ''.turbo'']"

text \<open>
  A compiled \<open>*ignore.GitIgnore\<close> is represented by the lines it was compiled from;
  \<open>None\<close> is the nil pointer.
\<close>

record IgnoreMatcher =
  customIgnore :: "string list option"
  defaultIgnore :: "string list option"

definition NewIgnoreMatcher :: "string list \<Rightarrow> bool \<Rightarrow> IgnoreMatcher" where
  "NewIgnoreMatcher patterns useDefault =
     \<lparr>customIgnore = (if length patterns > 0 then Some patterns else None),
      defaultIgnore = (if useDefault then Some DefaultIgnores else None)\<rparr>"

definition ShouldIgnore :: "world \<Rightarrow> IgnoreMatcher \<Rightarrow> string \<Rightarrow> bool" where
  "ShouldIgnore env im path0 =
     (let path = ToSlash path0 in
      if (case defaultIgnore im of None \<Rightarrow> False | Some g \<Rightarrow> MatchesPath env g path) then True
      else if (case customIgnore im of None \<Rightarrow> False | Some g \<Rightarrow> MatchesPath env g path) then True
      else False)"

section \<open>Package processor: statistics and the two writers\<close>

text \<open>
  The output side of the file system is taken to work: creating, writing, flushing,
  closing and inspecting an artifact succeed, so the branches that only pass on such a
  failure are not part of the model. An artifact is modelled by the bytes it holds once
  the buffered writer is flushed. The statistics name the smallest and the largest
  artifact by index; \<open>getCurrentPathForIndex\<close> derives the path from the index.
\<close>

record ProcessorStats =
  TotalFiles :: int
  IncludedCount :: int
  IgnoredCount :: int
  BinaryCount :: int
  TotalSize :: int
  IncludedFiles :: "string list"
  NumberOfFiles :: int
  AverageFileSize :: int
  SmallestFile :: int
  SmallestFileSize :: int
  LargestFile :: int
  LargestFileSize :: int

definition new_ProcessorStats :: ProcessorStats where
  "new_ProcessorStats =
     \<lparr>TotalFiles = 0, IncludedCount = 0, IgnoredCount = 0, BinaryCount = 0, TotalSize = 0,
      IncludedFiles = [], NumberOfFiles = 0, AverageFileSize = 0, SmallestFile = 0,
      SmallestFileSize = 0, LargestFile = 0, LargestFileSize = 0\<rparr>"

record singleFileWriter =
  sw_file :: string

text \<open>
  \<open>writer\<close> is \<open>None\<close> while \<open>w.writer\<close> and \<open>w.currentFile\<close> are nil (both are set
  together); otherwise it holds the bytes of the open artifact. \<open>closedFiles\<close> are the
  artifacts closed so far, in the order of their creation.
\<close>

record multiFileWriter =
  config :: ProcessorConfig
  closedFiles :: "string list"
  writer :: "string option"
  fileIndex :: int
  outputSize :: int

definition int64 :: "int \<Rightarrow> int" where
  "int64 i = sint (word_of_int i :: 64 word)"

definition maxBytes :: "ProcessorConfig \<Rightarrow> int" where
  "maxBytes cfg = int64 (MaxFileSizeMB cfg * 1024 * 1024)"

definition artifacts :: "multiFileWriter \<Rightarrow> string list" where
  "artifacts w = closedFiles w @ (case writer w of None \<Rightarrow> [] | Some cur \<Rightarrow> [cur])"

definition newSingleFileWriter :: "ProcessorConfig \<Rightarrow> singleFileWriter" where
  "newSingleFileWriter cfg = \<lparr>sw_file = []\<rparr>"

definition sfw_Write :: "singleFileWriter \<Rightarrow> string \<Rightarrow> error option \<times> singleFileWriter" where
  "sfw_Write w content = (None, w\<lparr>sw_file := sw_file w @ content\<rparr>)"

definition sfw_Close :: "singleFileWriter \<Rightarrow> string list" where
  "sfw_Close w = [sw_file w]"

definition createNewFile ::
  "multiFileWriter \<Rightarrow> ProcessorStats \<Rightarrow> multiFileWriter \<times> ProcessorStats" where
  "createNewFile w st =
     (w\<lparr>closedFiles := artifacts w,
        fileIndex := fileIndex w + 1,
        writer := Some utf8BOM\<rparr>,
      st\<lparr>NumberOfFiles := NumberOfFiles st + 1\<rparr>)"

definition newMultiFileWriter ::
  "ProcessorConfig \<Rightarrow> ProcessorStats \<Rightarrow> multiFileWriter \<times> ProcessorStats" where
  "newMultiFileWriter cfg st =
     createNewFile \<lparr>config = cfg, closedFiles = [], writer = None, fileIndex = 0,
                    outputSize = 0\<rparr> st"

definition updateFileStats :: "ProcessorStats \<Rightarrow> int \<Rightarrow> int \<Rightarrow> ProcessorStats" where
  "updateFileStats st path sz =
     (let st1 = (if SmallestFileSize st = 0 \<or> sz < SmallestFileSize st
                 then st\<lparr>SmallestFile := path, SmallestFileSize := sz\<rparr> else st)
      in if sz > LargestFileSize st1
         then st1\<lparr>LargestFile := path, LargestFileSize := sz\<rparr> else st1)"

text \<open>
  \<open>multiFileWriter.Write\<close>. The new file is created before anything is written; the
  block then goes to the open artifact whole.
\<close>

definition mfw_Write ::
  "multiFileWriter \<Rightarrow> ProcessorStats \<Rightarrow> string
   \<Rightarrow> error option \<times> multiFileWriter \<times> ProcessorStats" where
  "mfw_Write w st content =
     (if \<not> utf8_Valid content then (Some InvalidUTF8Content, w, st)
      else
        (let contentSize = int (length content);
             (w1, st1) =
               (if writer w = None \<or> outputSize w + contentSize > maxBytes (config w)
                then (case createNewFile w st of (w', st') \<Rightarrow> (w'\<lparr>outputSize := 0\<rparr>, st'))
                else (w, st));
             w2 = w1\<lparr>writer := map_option (\<lambda>cur. cur @ content) (writer w1)\<rparr>;
             w3 = w2\<lparr>outputSize := outputSize w2 + contentSize\<rparr>;
             st2 = updateFileStats st1 (fileIndex w3) (outputSize w3)
         in (None, w3, st2)))"

text \<open>
  \<open>calculateFinalStats\<close> inspects the artifacts \<open>1..fileIndex\<close> on disk; the accumulator is
  (tot, smallest, smallestFile, largest, largestFile), with index 0 for the empty name.
\<close>

fun calculateFinalStats_loop ::
  "int \<Rightarrow> string list \<Rightarrow> int \<times> int \<times> int \<times> int \<times> int \<Rightarrow> int \<times> int \<times> int \<times> int \<times> int" where
  "calculateFinalStats_loop i [] acc = acc"
| "calculateFinalStats_loop i (f # fs) (tot, smallest, smallestFile, largest, largestFile) =
     (let sz = int (length f);
          (smallest', smallestFile') =
             (if sz < smallest then (sz, i) else (smallest, smallestFile));
          (largest', largestFile') =
             (if sz > largest then (sz, i) else (largest, largestFile))
      in calculateFinalStats_loop (i + 1) fs
           (tot + sz, smallest', smallestFile', largest', largestFile'))"

definition calculateFinalStats :: "multiFileWriter \<Rightarrow> ProcessorStats \<Rightarrow> ProcessorStats" where
  "calculateFinalStats w st =
     (case calculateFinalStats_loop 1 (take (nat (fileIndex w)) (artifacts w))
             (0, 2 ^ 63 - 1, 0, 0, 0) of
        (tot, smallest, smallestFile, largest, largestFile) \<Rightarrow>
          (let st1 = st\<lparr>SmallestFileSize := smallest, SmallestFile := smallestFile,
                         LargestFileSize := largest, LargestFile := largestFile\<rparr>
           in if NumberOfFiles st1 > 0
              then st1\<lparr>AverageFileSize := tot div NumberOfFiles st1\<rparr> else st1))"

definition mfw_Close :: "multiFileWriter \<Rightarrow> ProcessorStats \<Rightarrow> string list \<times> ProcessorStats" where
  "mfw_Close w st = (artifacts w, calculateFinalStats w st)"

text \<open>The interface \<open>fileWriter\<close> with its two implementations.\<close>

datatype fileWriter = Single singleFileWriter | Multi multiFileWriter

fun fw_Write ::
  "fileWriter \<Rightarrow> ProcessorStats \<Rightarrow> string \<Rightarrow> error option \<times> fileWriter \<times> ProcessorStats" where
  "fw_Write (Single w) st content =
     (case sfw_Write w content of (err, w') \<Rightarrow> (err, Single w', st))"
| "fw_Write (Multi w) st content =
     (case mfw_Write w st content of (err, w', st') \<Rightarrow> (err, Multi w', st'))"

fun fw_Close :: "fileWriter \<Rightarrow> ProcessorStats \<Rightarrow> string list \<times> ProcessorStats" where
  "fw_Close (Single w) st = (sfw_Close w, st)"
| "fw_Close (Multi w) st = mfw_Close w st"



section \<open>Package processor: the run\<close>

record Processor =
  p_config :: ProcessorConfig
  p_stats :: ProcessorStats
  p_writer :: fileWriter
  p_matcher :: IgnoreMatcher

definition NewProcessor :: "ProcessorConfig \<Rightarrow> Processor" where
  "NewProcessor cfg0 =
     (let cfg1 = (if ChunkSize cfg0 = 0 then cfg0\<lparr>ChunkSize := 1 * 1024 * 1024\<rparr> else cfg0);
          cfg = (if MaxFileSizeMB cfg1 = 0 then cfg1\<lparr>MaxFileSizeMB := 10\<rparr> else cfg1);
          stats = new_ProcessorStats;
          (wr, stats') =
             (if Split cfg
              then (case newMultiFileWriter cfg stats of (w, st) \<Rightarrow> (Multi w, st))
              else (Single (newSingleFileWriter cfg), stats))
      in \<lparr>p_config = cfg, p_stats = stats', p_writer = wr,
          p_matcher = NewIgnoreMatcher [] (UseDefaultIgnores cfg)\<rparr>)"

text \<open>
  \<open>collectFiles\<close>: the callback of \<open>filepath.Walk\<close> over the entries, the files found so
  far and the statistics; the first error ends the walk. The ignored count is written to
  the shared statistics as the walk goes, so it is returned also when the walk fails.
\<close>

fun collectFiles_walk ::
  "world \<Rightarrow> Processor \<Rightarrow> entry list \<Rightarrow> string list \<Rightarrow> ProcessorStats
   \<Rightarrow> (error + string list) \<times> ProcessorStats" where
  "collectFiles_walk env p [] files st = (Inr files, st)"
| "collectFiles_walk env p (WalkErr err # es) files st = (Inl err, st)"
| "collectFiles_walk env p (DirEntry path # es) files st = collectFiles_walk env p es files st"
| "collectFiles_walk env p (FileEntry path # es) files st =
     (case Rel (InputDir (p_config p)) path of
        Inl err \<Rightarrow> (Inl err, st)
      | Inr relPath \<Rightarrow>
          if ShouldIgnore env (p_matcher p) relPath
          then collectFiles_walk env p es files (st\<lparr>IgnoredCount := IgnoredCount st + 1\<rparr>)
          else collectFiles_walk env p es (files @ [relPath]) st)"

definition collectFiles :: "world \<Rightarrow> Processor \<Rightarrow> (error + string list) \<times> ProcessorStats" where
  "collectFiles env p =
     (case collectFiles_walk env p (Walk env (InputDir (p_config p))) [] (p_stats p) of
        (Inl err, st) \<Rightarrow> (Inl err, st)
      | (Inr files, st) \<Rightarrow> (Inr files, st\<lparr>TotalFiles := int (length files)\<rparr>))"

text \<open>
  \<open>processFiles\<close> starts one goroutine per path and closes the channel when all have
  delivered: the channel carries the result of every path once, in arrival order.
\<close>

definition processFiles :: "world \<Rightarrow> Processor \<Rightarrow> string list \<Rightarrow> FileResult list" where
  "processFiles env p files = map (processFile env (p_config p)) (arrival env files)"

definition updateStats :: "ProcessorStats \<Rightarrow> FileResult \<Rightarrow> ProcessorStats" where
  "updateStats st result =
     (let st1 = st\<lparr>IncludedCount := IncludedCount st + 1,
                    IncludedFiles := IncludedFiles st @ [RelativePath result]\<rparr>;
          st2 = (if FileType result \<noteq> ''text''
                 then st1\<lparr>BinaryCount := BinaryCount st1 + 1\<rparr> else st1)
      in st2\<lparr>TotalSize := TotalSize st2 + Size result\<rparr>)"

text \<open>The loop of \<open>Process\<close> over the channel of results.\<close>

fun Process_loop ::
  "fileWriter \<Rightarrow> ProcessorStats \<Rightarrow> FileResult list
   \<Rightarrow> error option \<times> fileWriter \<times> ProcessorStats" where
  "Process_loop w st [] = (None, w, st)"
| "Process_loop w st (result # results) =
     (if Error result \<noteq> None then Process_loop w st results
      else
        (case fw_Write w st (Content result) of
           (Some err, w', st') \<Rightarrow> (Some err, w', st')
         | (None, w', st') \<Rightarrow> Process_loop w' (updateStats st' result) results))"

text \<open>
  \<open>Process\<close> returns its error, and leaves the statistics and, after the deferred
  \<open>Close\<close>, the artifacts on disk.
\<close>

definition Process :: "world \<Rightarrow> Processor \<Rightarrow> error option \<times> ProcessorStats \<times> string list" where
  "Process env p =
     (case collectFiles env p of
        (Inl err, st) \<Rightarrow>
          (case fw_Close (p_writer p) st of (disk, st') \<Rightarrow> (Some err, st', disk))
      | (Inr files, st) \<Rightarrow>
          (case Process_loop (p_writer p) st (processFiles env p files) of
             (err, w, st1) \<Rightarrow>
               (case fw_Close w st1 of (disk, st') \<Rightarrow> (err, st', disk))))"

section \<open>Concrete inputs\<close>

definition cfg_split :: ProcessorConfig where
  "cfg_split =
     \<lparr>InputDir = ''in'', OutputFile = ''out.md'', UseDefaultIgnores = True,
      cfg_RemoveWhitespace = True, ShowOutputFiles = False, IgnoreFile = ''.aidigestignore'',
      Split = True, MaxFileSizeMB = 1, OutputFilePattern = [], ChunkSize = 1048576\<rparr>"



definition cfg_single :: ProcessorConfig where
  "cfg_single = cfg_split\<lparr>Split := False\<rparr>"

text \<open>
  A small input tree: two text files, an SVG file, a Markdown file, a file whose bytes
  are not UTF-8, and a file that a default ignore line names. The matcher of this world
  matches a path that is equal to one of the lines; results arrive in reverse order.
\<close>

definition demo_files :: "(string \<times> string) list" where
  "demo_files =
     [(''in/a.py'', ''x  y''), (''in/b.txt'', ''x    y''), (''in/logo.svg'', ''<svg></svg>''),
      (''in/notes.markdown'', ''hi''), (''in/bad.txt'', [CHR 0xFF]),
      (''in/go.sum'', ''h1'')]"

definition demo_world :: world where
  "demo_world =
     \<lparr>os_Stat = (\<lambda>p. case map_of demo_files p of
                        Some c \<Rightarrow> Inr (int (length c)) | None \<Rightarrow> Inl StatError),
      os_Open_Read = (\<lambda>p. case map_of demo_files p of
                        Some c \<Rightarrow> Inr (take 512 c) | None \<Rightarrow> Inl OpenError),
      os_ReadFile = (\<lambda>p. case map_of demo_files p of
                        Some c \<Rightarrow> Inr c | None \<Rightarrow> Inl ReadError),
      DetectContentType = (\<lambda>bs. ''text/plain; charset=utf-8''),
      Walk = (\<lambda>root. if root = ''in''
                       then DirEntry ''in'' # map (\<lambda>(p, c). FileEntry p) demo_files
                       else [WalkErr WalkError]),
      MatchesPath = (\<lambda>ls path. path \<in> set ls),
      arrival = rev\<rparr>"


definition empty_world :: world where
  "empty_world = demo_world\<lparr>Walk := (\<lambda>root. [DirEntry root, DirEntry (root @ ''/sub'')])\<rparr>"

section \<open>Notions the claims use\<close>

text \<open>
  The block of a text file: a heading line with the relative path, an empty line, the
  opening fence with its tag, the body, the closing fence, an empty line.
\<close>

definition text_block :: "string \<Rightarrow> string \<Rightarrow> string \<Rightarrow> string \<Rightarrow> string" where
  "text_block relPath fence tag body =
     ''# '' @ relPath @ ''\<newline>\<newline>'' @ fence @ tag @ ''\<newline>'' @ body @ ''\<newline>'' @ fence
     @ ''\<newline>\<newline>''"


fun is_file :: "entry \<Rightarrow> bool" where
  "is_file (FileEntry path) = True"
| "is_file e = False"

definition filesSeen :: "entry list \<Rightarrow> int" where
  "filesSeen es = int (length (filter is_file es))"

text \<open>
  A scalar value is a code point that UTF-8 encodes as itself: at most U+10FFFF and no
  surrogate. \<open>collapsed space rs\<close>: every ASCII space of \<open>rs\<close> is U+0020, no two are
  adjacent, and none comes first when \<open>space\<close> is set.
\<close>

definition scalar :: "rune \<Rightarrow> bool" where
  "scalar r \<longleftrightarrow> r \<le> 0x10FFFF \<and> \<not> (0xD800 \<le> r \<and> r \<le> 0xDFFF)"

fun collapsed :: "bool \<Rightarrow> rune list \<Rightarrow> bool" where
  "collapsed space [] = True"
| "collapsed space (r # rs) =
     (if isWhitespace r then \<not> space \<and> r = 0x20 \<and> collapsed True rs else collapsed False rs)"

text \<open>A writer whose configuration names another custom ignore file.\<close>

fun fw_IgnoreFile :: "string \<Rightarrow> fileWriter \<Rightarrow> fileWriter" where
  "fw_IgnoreFile f (Single w) = Single w"
| "fw_IgnoreFile f (Multi w) = Multi (w\<lparr>config := (config w)\<lparr>IgnoreFile := f\<rparr>\<rparr>)"

section \<open>Invariants of the split writer\<close>





















section \<open>The claims about the writers\<close>







section \<open>Whitespace normalisation\<close>

lemma collapsed_loop: "collapsed space (RemoveWhitespace_loop space rs)"
  by (induction rs arbitrary: space) (auto simp: isWhitespace_def)

lemma loop_collapsed: "collapsed space rs \<Longrightarrow> RemoveWhitespace_loop space rs = rs"
  by (induction rs arbitrary: space) (auto split: if_splits)

lemma collapsed_weaken: "collapsed space rs \<Longrightarrow> collapsed False rs"
  by (cases rs) (auto split: if_splits)

lemma collapsed_suffix: "collapsed space (xs @ ys) \<Longrightarrow> collapsed False ys"
proof (induction xs arbitrary: space)
  case Nil
  then show ?case by (simp add: collapsed_weaken)
next
  case (Cons x xs)
  then show ?case by (auto split: if_splits)
qed

lemma collapsed_prefix: "collapsed space (xs @ ys) \<Longrightarrow> collapsed space xs"
  by (induction xs arbitrary: space) (auto split: if_splits)

lemma collapsed_TrimSpace:
  assumes "collapsed False rs"
  shows "collapsed False (TrimSpace rs)"
proof -
  have "rs = takeWhile IsSpace rs @ dropWhile IsSpace rs" by simp
  with assms have d: "collapsed False (dropWhile IsSpace rs)"
    by (metis collapsed_suffix)
  let ?d = "dropWhile IsSpace rs"
  have "rev ?d = takeWhile IsSpace (rev ?d) @ dropWhile IsSpace (rev ?d)" by simp
  then have "?d = rev (dropWhile IsSpace (rev ?d)) @ rev (takeWhile IsSpace (rev ?d))"
    by (metis rev_append rev_rev_ident)
  with d show ?thesis
    unfolding TrimSpace_def by (metis collapsed_prefix)
qed

lemma TrimSpace_idem: "TrimSpace (TrimSpace rs) = TrimSpace rs"
proof -
  let ?d = "dropWhile IsSpace rs"
  let ?t = "rev (dropWhile IsSpace (rev ?d))"
  have 1: "dropWhile IsSpace ?t = ?t"
  proof (cases "?t = []")
    case True
    then show ?thesis by (metis dropWhile.simps(1))
  next
    case False
    have "?d = ?t @ rev (takeWhile IsSpace (rev ?d))"
      by (metis rev_append rev_rev_ident takeWhile_dropWhile_id)
    with False have "hd ?t = hd ?d" by (metis hd_append2)
    moreover have "?d \<noteq> []"
    proof
      assume "?d = []"
      then have "?t = []" by (simp only: rev.simps dropWhile.simps)
      with False show False ..
    qed
    then have "\<not> IsSpace (hd ?d)" by (rule hd_dropWhile)
    ultimately show ?thesis using False by (metis dropWhile_eq_self_iff)
  qed
  have 2: "dropWhile IsSpace (rev ?t) = rev ?t" by (simp add: dropWhile_idem)
  have "TrimSpace (TrimSpace rs) = rev (dropWhile IsSpace (rev (dropWhile IsSpace ?t)))"
    by (simp only: TrimSpace_def)
  also have "\<dots> = rev (dropWhile IsSpace (rev ?t))" by (simp only: 1)
  also have "\<dots> = rev (rev ?t)" by (simp only: 2)
  also have "\<dots> = TrimSpace rs" by (simp only: rev_rev_ident TrimSpace_def)
  finally show ?thesis .
qed

lemma normalise_runes_idem:
  "TrimSpace (RemoveWhitespace_loop False (TrimSpace (RemoveWhitespace_loop False rs)))
     = TrimSpace (RemoveWhitespace_loop False rs)"
  by (simp add: loop_collapsed [OF collapsed_TrimSpace [OF collapsed_loop]] TrimSpace_idem)

lemma byte_char_of: "n < 256 \<Longrightarrow> byte (char_of n) = n"
  by (simp add: of_char_of)

lemma lead2_mod: "q < 32 \<Longrightarrow> (192 + q) mod 32 = (q::nat)"
  using mod_mult_self3 [of 6 32 q] by simp

lemma cont_mod: "m < 64 \<Longrightarrow> (128 + m) mod 64 = (m::nat)"
  using mod_mult_self3 [of 2 64 m] by simp

lemma lead3_mod: "q < 16 \<Longrightarrow> (224 + q) mod 16 = (q::nat)"
  using mod_mult_self3 [of 14 16 q] by simp

lemma lead4_mod: "q < 8 \<Longrightarrow> (240 + q) mod 8 = (q::nat)"
  using mod_mult_self3 [of 30 8 q] by simp

lemma digits3: "(r::nat) = (r div 4096) * 4096 + ((r div 64) mod 64) * 64 + r mod 64"
proof -
  define a where "a = r div 64"
  have 1: "r div 4096 = a div 64" by (simp add: a_def div_mult2_eq)
  have 3: "r = a * 64 + r mod 64" by (simp add: a_def)
  have r: "(q * 64 + m) * 64 = q * 4096 + m * 64" for q m :: nat by (simp add: add_mult_distrib)
  have "a * 64 = ((a div 64) * 64 + a mod 64) * 64" by simp
  also have "\<dots> = (a div 64) * 4096 + (a mod 64) * 64" by (rule r)
  finally have "a * 64 = (a div 64) * 4096 + (a mod 64) * 64" .
  with 1 3 show ?thesis unfolding a_def by simp
qed

lemma digits4: "(r::nat) = (r div 262144) * 262144 + ((r div 4096) mod 64) * 4096 + ((r div 64) mod 64) * 64 + r mod 64"
proof -
  define a where "a = r div 64"
  define b where "b = a div 64"
  have 1: "r div 4096 = b" by (simp add: a_def b_def div_mult2_eq)
  have 2: "r div 262144 = b div 64" by (simp add: a_def b_def div_mult2_eq)
  have 3: "r = a * 64 + r mod 64" by (simp add: a_def)
  have 4: "a = b * 64 + a mod 64" by (simp add: b_def)
  have r: "((q * 64 + m) * 64 + n) * 64 = q * 262144 + m * 4096 + n * 64" for q m n :: nat
    by (simp add: add_mult_distrib)
  have "a * 64 = (((b div 64) * 64 + b mod 64) * 64 + a mod 64) * 64" using 4 by simp
  also have "\<dots> = (b div 64) * 262144 + (b mod 64) * 4096 + (a mod 64) * 64" by (rule r)
  finally have "a * 64 = (b div 64) * 262144 + (b mod 64) * 4096 + (a mod 64) * 64" .
  with 1 2 3 show ?thesis unfolding a_def by simp
qed

lemma Decode2:
  assumes "byte c0 = 192 + q" "2 \<le> q" "q < 32" "byte c1 = 128 + m" "m < 64"
  shows "DecodeRune (c0 # c1 # rest) = Some (q * 64 + m, rest)"
  using assms
  by (simp add: second_def accept_lo_def accept_hi_def locb_def hicb_def lead2_mod cont_mod)

lemma Decode4:
  assumes "byte c0 = 240 + q" "q \<le> 4" "byte c1 = 128 + m1" "m1 < 64"
    "byte c2 = 128 + m2" "m2 < 64" "byte c3 = 128 + m3" "m3 < 64"
    "q = 0 \<longrightarrow> 16 \<le> m1" "q = 4 \<longrightarrow> m1 < 16"
  shows "DecodeRune (c0 # c1 # c2 # c3 # rest)
           = Some (q * 262144 + m1 * 4096 + m2 * 64 + m3, rest)"
  using assms
  by (auto simp: second_def cont_def accept_lo_def accept_hi_def locb_def hicb_def lead4_mod cont_mod)

lemma Decode_Encode2:
  assumes "0x80 \<le> r" "r \<le> 0x7FF"
  shows "DecodeRune (EncodeRune r @ rest) = Some (r, rest)"
proof -
  define q where "q = r div 64"
  define m where "m = r mod 64"
  have r: "r = q * 64 + m" by (simp add: q_def m_def)
  have q: "2 \<le> q" "q < 32" using assms by (simp_all add: q_def)
  have m: "m < 64" by (simp add: m_def)
  have e: "EncodeRune r = [char_of (192 + q), char_of (128 + m)]"
    using assms by (simp add: EncodeRune_def q_def m_def)
  have b0: "byte (char_of (192 + q)) = 192 + q" using q by (intro byte_char_of) simp
  have b1: "byte (char_of (128 + m)) = 128 + m" using m by (intro byte_char_of) simp
  from Decode2 [OF b0 q b1 m, of rest] e r show ?thesis by simp
qed

lemma Decode3:
  assumes "byte c0 = 224 + q" "q < 16" "byte c1 = 128 + m1" "m1 < 64"
    "byte c2 = 128 + m2" "m2 < 64" "q = 0 \<longrightarrow> 32 \<le> m1" "q = 13 \<longrightarrow> m1 < 32"
  shows "DecodeRune (c0 # c1 # c2 # rest) = Some (q * 4096 + m1 * 64 + m2, rest)"
  using assms
  by (auto simp: second_def cont_def accept_lo_def accept_hi_def locb_def hicb_def lead3_mod cont_mod)

lemma Decode_Encode4:
  assumes "0x10000 \<le> r" "r \<le> 0x10FFFF"
  shows "DecodeRune (EncodeRune r @ rest) = Some (r, rest)"
proof -
  define q where "q = r div 262144"
  define b where "b = r div 4096"
  define a where "a = r div 64"
  define m1 where "m1 = b mod 64"
  define m2 where "m2 = a mod 64"
  define m3 where "m3 = r mod 64"
  have r: "r = q * 262144 + m1 * 4096 + m2 * 64 + m3"
    unfolding q_def m1_def m2_def m3_def a_def b_def by (rule digits4)
  have q: "q \<le> 4" using assms by (simp add: q_def)
  have m: "m1 < 64" "m2 < 64" "m3 < 64" by (simp_all add: m1_def m2_def m3_def)
  have qb: "q = b div 64" by (simp add: q_def b_def div_mult2_eq)
  have b: "b = q * 64 + m1" unfolding qb m1_def by simp
  have lo: "16 \<le> b" using assms by (simp add: b_def)
  have hi: "b < 272" using assms by (simp add: b_def)
  have c0: "q = 0 \<longrightarrow> 16 \<le> m1" using b lo by auto
  have c4: "q = 4 \<longrightarrow> m1 < 16" using b hi by auto
  have e: "EncodeRune r = [char_of (240 + q), char_of (128 + m1), char_of (128 + m2),
                           char_of (128 + m3)]"
    using assms by (simp add: EncodeRune_def q_def m1_def m2_def m3_def a_def b_def)
  have b0: "byte (char_of (240 + q)) = 240 + q" using q by (intro byte_char_of) simp
  have b1: "byte (char_of (128 + m1)) = 128 + m1" using m by (intro byte_char_of) simp
  have b2: "byte (char_of (128 + m2)) = 128 + m2" using m by (intro byte_char_of) simp
  have b3: "byte (char_of (128 + m3)) = 128 + m3" using m by (intro byte_char_of) simp
  from Decode4 [OF b0 q b1 m(1) b2 m(2) b3 m(3) c0 c4, of rest] e r show ?thesis by simp
qed

lemma Decode_Encode1:
  assumes "r \<le> 0x7F"
  shows "DecodeRune (EncodeRune r @ rest) = Some (r, rest)"
proof -
  have e: "EncodeRune r = [char_of r]" using assms by (simp add: EncodeRune_def)
  have b: "byte (char_of r) = r" using assms by (intro byte_char_of) simp
  with assms show ?thesis by (simp add: e)
qed

lemma Decode_Encode3:
  assumes "0x800 \<le> r" "r \<le> 0xFFFF" "\<not> (0xD800 \<le> r \<and> r \<le> 0xDFFF)"
  shows "DecodeRune (EncodeRune r @ rest) = Some (r, rest)"
proof -
  define q where "q = r div 4096"
  define a where "a = r div 64"
  define m1 where "m1 = a mod 64"
  define m2 where "m2 = r mod 64"
  have r: "r = q * 4096 + m1 * 64 + m2"
    unfolding q_def m1_def m2_def a_def by (rule digits3)
  have q: "q < 16" using assms by (simp add: q_def)
  have m: "m1 < 64" "m2 < 64" by (simp_all add: m1_def m2_def)
  have qa: "q = a div 64" by (simp add: q_def a_def div_mult2_eq)
  have a: "a = q * 64 + m1" unfolding qa m1_def by simp
  have lo: "32 \<le> a" using assms by (simp add: a_def)
  have c0: "q = 0 \<longrightarrow> 32 \<le> m1" using a lo by auto
  have c13: "q = 13 \<longrightarrow> m1 < 32"
  proof
    assume q13: "q = 13"
    with r m have "53248 \<le> r" "r < 57344" by simp_all
    with assms(3) have "r < 55296" by simp
    then have "a < 864" by (simp add: a_def)
    with a q13 show "m1 < 32" by simp
  qed
  have e: "EncodeRune r = [char_of (224 + q), char_of (128 + m1), char_of (128 + m2)]"
    using assms by (auto simp add: EncodeRune_def q_def m1_def m2_def a_def)
  have b0: "byte (char_of (224 + q)) = 224 + q" using q by (intro byte_char_of) simp
  have b1: "byte (char_of (128 + m1)) = 128 + m1" using m by (intro byte_char_of) simp
  have b2: "byte (char_of (128 + m2)) = 128 + m2" using m by (intro byte_char_of) simp
  from Decode3 [OF b0 q b1 m(1) b2 m(2) c0 c13, of rest] e r show ?thesis by simp
qed

lemma scalar_Decode:
  assumes "DecodeRune bs = Some (r, rest)"
  shows "scalar r"
proof (cases bs)
  case Nil
  with assms show ?thesis by simp
next
  case (Cons c0 cs)
  have lt: "byte c < 256" for c by simp
  consider (one) "byte c0 < 128"
    | (two) "194 \<le> byte c0" "byte c0 \<le> 223"
    | (three) "224 \<le> byte c0" "byte c0 \<le> 239"
    | (four) "240 \<le> byte c0" "byte c0 \<le> 244"
    | (bad) "128 \<le> byte c0" "byte c0 < 194 \<or> 244 < byte c0"
    by linarith
  then show ?thesis
  proof cases
    case one
    with assms Cons show ?thesis by (auto simp: scalar_def)
  next
    case two
    with assms Cons obtain c1 where r: "r = (byte c0 mod 32) * 64 + byte c1 mod 64"
      by (auto split: list.splits if_splits)
    define a where "a = byte c0 mod 32"
    define b where "b = byte c1 mod 64"
    have "a < 32" "b < 64" by (simp_all add: a_def b_def)
    moreover from r have "r = a * 64 + b" by (simp add: a_def b_def)
    ultimately show ?thesis by (simp add: scalar_def)
  next
    case three
    with assms Cons obtain c1 c2 where
      r: "r = (byte c0 mod 16) * 4096 + (byte c1 mod 64) * 64 + byte c2 mod 64"
      and s: "second (byte c0) c1"
      by (auto split: list.splits if_splits)
    define q where "q = byte c0 - 224"
    have c0: "byte c0 = 224 + q" "q < 16" using three by (simp_all add: q_def)
    define m1 where "m1 = byte c1 - 128"
    from s have "128 \<le> byte c1" "byte c1 \<le> 191"
      by (auto simp: second_def accept_lo_def accept_hi_def locb_def hicb_def split: if_splits)
    then have c1: "byte c1 = 128 + m1" "m1 < 64" by (simp_all add: m1_def)
    from s c0 c1 have ed: "q = 13 \<longrightarrow> m1 < 32"
      by (auto simp: second_def accept_lo_def accept_hi_def locb_def hicb_def split: if_splits)
    define m2 where "m2 = byte c2 mod 64"
    have m2: "m2 < 64" by (simp add: m2_def)
    from r c0 c1 have r': "r = q * 4096 + m1 * 64 + m2"
      by (simp add: lead3_mod cont_mod m2_def)
    show ?thesis
    proof (cases "q = 13")
      case True
      with ed r' m2 c1 show ?thesis by (simp add: scalar_def)
    next
      case False
      then have "q \<le> 12 \<or> 14 \<le> q" by linarith
      with r' m2 c0 c1 show ?thesis by (auto simp: scalar_def)
    qed
  next
    case four
    with assms Cons obtain c1 c2 c3 where
      r: "r = (byte c0 mod 8) * 262144 + (byte c1 mod 64) * 4096 + (byte c2 mod 64) * 64
              + byte c3 mod 64"
      and s: "second (byte c0) c1"
      by (auto split: list.splits if_splits)
    define q where "q = byte c0 - 240"
    have c0: "byte c0 = 240 + q" "q \<le> 4" using four by (simp_all add: q_def)
    define m1 where "m1 = byte c1 - 128"
    from s have "128 \<le> byte c1" "byte c1 \<le> 191"
      by (auto simp: second_def accept_lo_def accept_hi_def locb_def hicb_def split: if_splits)
    then have c1: "byte c1 = 128 + m1" "m1 < 64" by (simp_all add: m1_def)
    from s c0 c1 have f4: "q = 4 \<longrightarrow> m1 < 16" and f0: "q = 0 \<longrightarrow> 16 \<le> m1"
      by (auto simp: second_def accept_lo_def accept_hi_def locb_def hicb_def split: if_splits)
    define m2 where "m2 = byte c2 mod 64"
    define m3 where "m3 = byte c3 mod 64"
    have m: "m2 < 64" "m3 < 64" by (simp_all add: m2_def m3_def)
    from c0 have q8: "q < 8" by simp
    from r c0 c1 have r': "r = q * 262144 + m1 * 4096 + m2 * 64 + m3"
      by (simp add: lead4_mod [OF q8] cont_mod m2_def m3_def)
    show ?thesis
    proof (cases "q = 4")
      case True
      with f4 r' m c1 show ?thesis by (simp add: scalar_def)
    next
      case False
      with c0 have q3: "q \<le> 3" by linarith
      show ?thesis
      proof (cases "q = 0")
        case True
        with f0 r' m c1 show ?thesis by (simp add: scalar_def)
      next
        case False
        then have "1 \<le> q" by linarith
        with q3 r' m c1 show ?thesis by (simp add: scalar_def)
      qed
    qed
  next
    case bad
    with assms Cons show ?thesis by (auto split: list.splits if_splits)
  qed
qed

lemma Decode_Encode:
  assumes "scalar r"
  shows "DecodeRune (EncodeRune r @ rest) = Some (r, rest)"
proof -
  from assms have hi: "r \<le> 0x10FFFF" and ns: "\<not> (0xD800 \<le> r \<and> r \<le> 0xDFFF)"
    by (simp_all add: scalar_def)
  consider "r \<le> 0x7F" | "0x80 \<le> r" "r \<le> 0x7FF" | "0x800 \<le> r" "r \<le> 0xFFFF"
    | "0x10000 \<le> r"
    by linarith
  then show ?thesis
  proof cases
    case 1
    then show ?thesis by (rule Decode_Encode1)
  next
    case 2
    then show ?thesis by (rule Decode_Encode2)
  next
    case 3
    from Decode_Encode3 [OF 3 ns] show ?thesis .
  next
    case 4
    from Decode_Encode4 [OF 4 hi] show ?thesis .
  qed
qed

lemma EncodeRune_nonempty: "EncodeRune r \<noteq> []"
  by (simp add: EncodeRune_def)

lemma runes_Encode:
  assumes "scalar r"
  shows "runes (EncodeRune r @ rest) = r # runes rest"
proof -
  obtain c cs where e: "EncodeRune r @ rest = c # cs"
    using EncodeRune_nonempty [of r] by (cases "EncodeRune r @ rest") auto
  from Decode_Encode [OF assms, of rest] e have "DecodeRune (c # cs) = Some (r, rest)" by simp
  then have "runes (c # cs) = r # runes rest" by (simp only: runes.simps option.case prod.case)
  with e show ?thesis by simp
qed

lemma runes_WriteRunes:
  assumes "\<forall>r \<in> set rs. scalar r"
  shows "runes (WriteRunes rs) = rs"
  using assms by (induction rs) (simp_all add: WriteRunes_def runes_Encode)

lemma scalar_RuneError: "scalar RuneError"
  by (simp add: scalar_def RuneError_def)

lemma scalar_runes: "\<forall>r \<in> set (runes s). scalar r"
proof (induction s rule: runes.induct)
  case 1
  then show ?case by simp
next
  case (2 c cs)
  show ?case
  proof (cases "DecodeRune (c # cs)")
    case None
    with 2 show ?thesis by (simp add: scalar_RuneError)
  next
    case (Some p)
    obtain r rest where p: "p = (r, rest)" by (cases p)
    from Some p have d: "DecodeRune (c # cs) = Some (r, rest)" by simp
    from scalar_Decode [OF d] "2.IH"(2) [OF d refl] d show ?thesis by simp
  qed
qed

lemma set_loop: "set (RemoveWhitespace_loop space rs) \<subseteq> insert 0x20 (set rs)"
  by (induction rs arbitrary: space) auto

lemma set_TrimSpace: "set (TrimSpace rs) \<subseteq> set rs"
proof
  fix x assume "x \<in> set (TrimSpace rs)"
  then have "x \<in> set (dropWhile IsSpace (rev (dropWhile IsSpace rs)))"
    by (simp add: TrimSpace_def)
  then have "x \<in> set (rev (dropWhile IsSpace rs))" by (rule set_dropWhileD)
  then have "x \<in> set (dropWhile IsSpace rs)" by simp
  then show "x \<in> set rs" by (rule set_dropWhileD)
qed

lemma scalar_normalised: "\<forall>r \<in> set (TrimSpace (RemoveWhitespace_loop False (runes s))). scalar r"
proof
  fix r assume "r \<in> set (TrimSpace (RemoveWhitespace_loop False (runes s)))"
  with set_TrimSpace have "r \<in> set (RemoveWhitespace_loop False (runes s))" by blast
  with set_loop have "r = 0x20 \<or> r \<in> set (runes s)" by blast
  with scalar_runes show "scalar r" by (auto simp: scalar_def)
qed

text \<open>
  Claim C8. \<open>RemoveWhitespace\<close> is idempotent on every string, also one that is not valid
  UTF-8: the first application writes only encodings of scalar values, which the second
  reads back as the same runes, already collapsed and trimmed.
\<close>

theorem RemoveWhitespace_idempotent: "RemoveWhitespace (RemoveWhitespace s) = RemoveWhitespace s"
proof -
  let ?t = "TrimSpace (RemoveWhitespace_loop False (runes s))"
  have "runes (RemoveWhitespace s) = ?t"
    unfolding RemoveWhitespace_def by (rule runes_WriteRunes [OF scalar_normalised])
  then have "RemoveWhitespace (RemoveWhitespace s)
      = WriteRunes (TrimSpace (RemoveWhitespace_loop False ?t))"
    by (simp add: RemoveWhitespace_def)
  also have "\<dots> = WriteRunes ?t" by (simp only: normalise_runes_idem)
  finally show ?thesis by (simp only: RemoveWhitespace_def)
qed

section \<open>Rendering one file\<close>

lemma IsWhitespaceSensitive_iff:
  "IsWhitespaceSensitive ext \<longleftrightarrow>
     ext \<in> set [''.py'', ''.yaml'', ''.yml'', ''.jade'', ''.haml'', ''.slim'', ''.coffee'',
                ''.pug'', ''.styl'', ''.gd'']"
  by (simp add: IsWhitespaceSensitive_def WhitespaceDependentExtensions_def)

lemma Ext_demo: "Ext ''in/notes.markdown'' = ''.markdown''" "Ext ''in/a.py'' = ''.py''"
  by (simp_all add: Ext_def Separator_def)

lemma lowerByte_dot: "lowerByte a = CHR ''.'' \<Longrightarrow> a = CHR ''.''"
  by (auto simp: lowerByte_def split: if_splits)

lemma lowerByte_s: "lowerByte a = CHR ''s'' \<Longrightarrow> a = CHR ''s'' \<or> a = CHR ''S''"
  by (auto simp: lowerByte_def split: if_splits)

lemma lowerByte_v: "lowerByte a = CHR ''v'' \<Longrightarrow> a = CHR ''v'' \<or> a = CHR ''V''"
  by (auto simp: lowerByte_def split: if_splits)

lemma lowerByte_g: "lowerByte a = CHR ''g'' \<Longrightarrow> a = CHR ''g'' \<or> a = CHR ''G''"
  by (auto simp: lowerByte_def split: if_splits)

lemma svg_suffix_split:
  assumes "HasSuffix (ToLower p) ''.svg''"
  shows "\<exists>p0 b c d. p = p0 @ [CHR ''.'', b, c, d] \<and> lowerByte b = CHR ''s''
           \<and> lowerByte c = CHR ''v'' \<and> lowerByte d = CHR ''g''"
proof -
  from assms obtain q where q: "map lowerByte p = q @ ''.svg''"
    by (auto simp: HasSuffix_def ToLower_def suffix_def)
  then obtain p0 t where p: "p = p0 @ t" and t: "map lowerByte t = ''.svg''"
    by (auto simp: map_eq_append_conv)
  from t obtain a b c d where t4: "t = [a, b, c, d]"
    and l: "lowerByte a = CHR ''.''" "lowerByte b = CHR ''s''" "lowerByte c = CHR ''v''"
       "lowerByte d = CHR ''g''"
    by (auto simp: map_eq_Cons_conv)
  from l(1) have "a = CHR ''.''" by (rule lowerByte_dot)
  with p t4 l show ?thesis by blast
qed

lemma Join_suffix:
  "\<exists>x. Join dir (p0 @ [a, b, c, d]) = x @ [a, b, c, d]"
proof (cases "dir = []")
  case True
  then show ?thesis by (simp add: Join_def)
next
  case False
  then have "Join dir (p0 @ [a, b, c, d]) = (dir @ [Separator] @ p0) @ [a, b, c, d]"
    by (simp add: Join_def)
  then show ?thesis by blast
qed

lemma svg_Ext:
  assumes "HasSuffix (ToLower p) ''.svg''"
  shows "ToLower (Ext (Join dir p)) = ''.svg''"
proof -
  from svg_suffix_split [OF assms] obtain p0 b c d where
    p: "p = p0 @ [CHR ''.'', b, c, d]" and l: "lowerByte b = CHR ''s''"
    "lowerByte c = CHR ''v''" "lowerByte d = CHR ''g''" by blast
  from Join_suffix [of dir p0 "CHR ''.''" b c d] p obtain x where
    j: "Join dir p = x @ [CHR ''.'', b, c, d]" by blast
  from lowerByte_s [OF l(1)] lowerByte_v [OF l(2)] lowerByte_g [OF l(3)]
  have "Ext (x @ [CHR ''.'', b, c, d]) = [CHR ''.'', b, c, d]"
    by (auto simp: Ext_def Separator_def)
  with j l show ?thesis by (simp add: ToLower_def lowerByte_def)
qed

lemma svg_suffix_Join:
  assumes "HasSuffix (ToLower p) ''.svg''"
  shows "HasSuffix (ToLower (Join dir p)) ''.svg''"
  using assms
  by (auto simp: HasSuffix_def ToLower_def Join_def suffix_def)

text \<open>
  Claim C9. For a file whose extension is one of .py, .yaml, .yml, .jade, .haml, .slim,
  .coffee, .pug, .styl, .gd, that can be read and whose bytes behind a leading marker are
  valid UTF-8, the block holds exactly those bytes between its fences, whatever the value
  of the whitespace-removal flag.
\<close>

theorem whitespace_sensitive_content_kept:
  assumes ext: "Ext path \<in> set [''.py'', ''.yaml'', ''.yml'', ''.jade'', ''.haml'', ''.slim'',
                                ''.coffee'', ''.pug'', ''.styl'', ''.gd'']"
    and rd: "os_ReadFile env path = Inr raw"
    and v: "utf8_Valid (TrimPrefix raw utf8BOM)"
    and rel: "Rel (InputDir cfg) path = Inr relPath"
  shows "processTextFile env (cfg\<lparr>cfg_RemoveWhitespace := flag\<rparr>) path =
           Inr (text_block relPath fence3 (TrimPrefix (Ext path) ''.'') (TrimPrefix raw utf8BOM))"
proof -
  from ext have s: "IsWhitespaceSensitive (Ext path)" by (simp only: IsWhitespaceSensitive_iff)
  from ext have m: "Ext path \<noteq> ''.md'' \<and> Ext path \<noteq> ''.markdown''" by auto
  from rd v rel s m show ?thesis
    by (simp add: processTextFile_def text_block_def Let_def)
qed

theorem whitespace_sensitive_content_kept_witness:
  "Ext ''in/a.py'' = ''.py''
   \<and> os_ReadFile demo_world ''in/a.py'' = Inr ''x  y''
   \<and> utf8_Valid (TrimPrefix ''x  y'' utf8BOM)
   \<and> Rel (InputDir cfg_single) ''in/a.py'' = Inr ''a.py''
   \<and> cfg_RemoveWhitespace cfg_single
   \<and> processTextFile demo_world cfg_single ''in/a.py'' =
        Inr (text_block ''a.py'' fence3 ''py'' ''x  y'')
   \<and> processTextFile demo_world (cfg_single\<lparr>cfg_RemoveWhitespace := False\<rparr>) ''in/a.py'' =
        Inr (text_block ''a.py'' fence3 ''py'' ''x  y'')"
proof -
  have e: "Ext ''in/a.py'' = ''.py''" by (simp add: Ext_demo)
  then have h1: "Ext ''in/a.py'' \<in> set [''.py'', ''.yaml'', ''.yml'', ''.jade'', ''.haml'', ''.slim'',
                                ''.coffee'', ''.pug'', ''.styl'', ''.gd'']" by simp
  have h2: "os_ReadFile demo_world ''in/a.py'' = Inr ''x  y''" by code_simp
  have t: "TrimPrefix ''x  y'' utf8BOM = ''x  y''" by code_simp
  have h3: "utf8_Valid (TrimPrefix ''x  y'' utf8BOM)" by code_simp
  have h4: "Rel (InputDir cfg_single) ''in/a.py'' = Inr ''a.py''" by code_simp
  have f: "cfg_RemoveWhitespace cfg_single" by code_simp
  have c: "cfg_single\<lparr>cfg_RemoveWhitespace := True\<rparr> = cfg_single"
    by (simp add: cfg_single_def cfg_split_def)
  have p: "TrimPrefix ''.py'' ''.'' = ''py''" by code_simp
  from whitespace_sensitive_content_kept [OF h1 h2 h3 h4, of True] whitespace_sensitive_content_kept [OF h1 h2 h3 h4, of False] e h2 h3 h4 f c t p
  show ?thesis by simp
qed




text \<open>
  Claim C2, as the code has it. A file whose name ends in .svg (in any letter case) and
  that can be inspected and opened is classified by its extension: the file type is
  \<open>SVG Image\<close> and the block is the one-line description, whatever type is sniffed from
  its first bytes and whatever its bytes are.
\<close>

theorem svg_rendered_as_placeholder:
  assumes svg: "HasSuffix (ToLower relPath) ''.svg''"
    and st: "os_Stat env (Join (InputDir cfg) relPath) = Inr sz"
    and rd: "os_Open_Read env (Join (InputDir cfg) relPath) = Inr buffer"
  shows "IsTextFile env (Join (InputDir cfg) relPath) = Inr True
       \<and> ShouldTreatAsBinary (Join (InputDir cfg) relPath)
       \<and> processFile env cfg relPath =
           \<lparr>RelativePath = relPath,
            Content = ''# '' @ relPath @ ''\<newline>\<newline>This is a file of type: SVG Image\<newline>\<newline>'',
            FileType = ''SVG Image'', Size = sz, Error = None\<rparr>"
proof -
  have b: "BinaryFileTypes ''.svg'' = Some ''SVG Image''"
    by (simp add: BinaryFileTypes_def)
  from svg_Ext [OF svg] b have bin: "ShouldTreatAsBinary (Join (InputDir cfg) relPath)"
    and ty: "GetFileType (Join (InputDir cfg) relPath) = ''SVG Image''"
    by (simp_all add: ShouldTreatAsBinary_def GetFileType_def)
  from rd svg_suffix_Join [OF svg]
  have isText: "IsTextFile env (Join (InputDir cfg) relPath) = Inr True"
    by (simp add: IsTextFile_def Let_def)
  with st bin ty svg show ?thesis
    by (simp add: processFile_def Let_def formatBinaryFileContent_def)
qed

theorem svg_rendered_as_placeholder_witness:
  "HasSuffix (ToLower ''logo.svg'') ''.svg''
   \<and> os_Stat demo_world (Join (InputDir cfg_single) ''logo.svg'') = Inr 11
   \<and> os_Open_Read demo_world (Join (InputDir cfg_single) ''logo.svg'') = Inr ''<svg></svg>''
   \<and> processFile demo_world cfg_single ''logo.svg'' =
           \<lparr>RelativePath = ''logo.svg'',
            Content = ''# logo.svg\<newline>\<newline>This is a file of type: SVG Image\<newline>\<newline>'',
            FileType = ''SVG Image'', Size = 11, Error = None\<rparr>"
proof -
  have h1: "HasSuffix (ToLower ''logo.svg'') ''.svg''" by code_simp
  have h2: "os_Stat demo_world (Join (InputDir cfg_single) ''logo.svg'') = Inr 11" by code_simp
  have h3: "os_Open_Read demo_world (Join (InputDir cfg_single) ''logo.svg'') = Inr ''<svg></svg>''"
    by code_simp
  from svg_rendered_as_placeholder [OF h1 h2 h3] h1 h2 h3 show ?thesis by simp
qed

text \<open>
  Claim C2 as stated fails: logo.svg holds valid UTF-8 text, and its result has the file
  type \<open>SVG Image\<close> and the one-line description, not a fenced text block.
\<close>

theorem svg_not_text_counterexample:
  "os_ReadFile demo_world ''in/logo.svg'' = Inr ''<svg></svg>''
   \<and> utf8_Valid ''<svg></svg>''
   \<and> FileType (processFile demo_world cfg_single ''logo.svg'') = ''SVG Image''
   \<and> FileType (processFile demo_world cfg_single ''logo.svg'') \<noteq> ''text''
   \<and> Content (processFile demo_world cfg_single ''logo.svg'')
       = ''# logo.svg\<newline>\<newline>This is a file of type: SVG Image\<newline>\<newline>''
   \<and> Content (processFile demo_world cfg_single ''logo.svg'')
       \<noteq> text_block ''logo.svg'' fence3 ''svg'' ''<svg></svg>''"
  by code_simp

section \<open>The run\<close>






lemma calculateFinalStats_counts:
  "TotalFiles (calculateFinalStats w st) = TotalFiles st"
  "IncludedCount (calculateFinalStats w st) = IncludedCount st"
  "IgnoredCount (calculateFinalStats w st) = IgnoredCount st"
  by (simp_all add: calculateFinalStats_def Let_def split: prod.splits)



lemma NewProcessor_stats:
  "IncludedCount (p_stats (NewProcessor cfg)) = 0"
  "IgnoredCount (p_stats (NewProcessor cfg)) = 0"
  "InputDir (p_config (NewProcessor cfg)) = InputDir cfg"
  by (simp_all add: NewProcessor_def Let_def newMultiFileWriter_def createNewFile_def
        new_ProcessorStats_def split: prod.splits)







lemma demo_seen: "filesSeen (Walk demo_world (InputDir cfg_single)) = 6"
  by code_simp


lemma collectFiles_walk_dirs:
  assumes "\<forall>e \<in> set es. \<exists>d. e = DirEntry d"
  shows "collectFiles_walk env p es files st = (Inr files, st)"
  using assms by (induction es) auto

lemma maxBytes_IgnoreFile: "maxBytes (cfg\<lparr>IgnoreFile := f\<rparr>) = maxBytes cfg"
  by (simp add: maxBytes_def)

lemma mfw_Write_IgnoreFile:
  "mfw_Write (w\<lparr>config := (config w)\<lparr>IgnoreFile := f\<rparr>\<rparr>) st b =
     (case mfw_Write w st b of
        (e, w', st') \<Rightarrow> (e, w'\<lparr>config := (config w')\<lparr>IgnoreFile := f\<rparr>\<rparr>, st'))"
  by (simp add: mfw_Write_def Let_def createNewFile_def artifacts_def maxBytes_IgnoreFile)

lemma fw_Write_IgnoreFile:
  "fw_Write (fw_IgnoreFile f w) st b =
     (case fw_Write w st b of (e, w', st') \<Rightarrow> (e, fw_IgnoreFile f w', st'))"
  by (cases w) (simp_all add: mfw_Write_IgnoreFile split: prod.splits)

lemma Process_loop_IgnoreFile:
  "Process_loop (fw_IgnoreFile f w) st rs =
     (case Process_loop w st rs of (e, w', st') \<Rightarrow> (e, fw_IgnoreFile f w', st'))"
proof (induction rs arbitrary: w st)
  case Nil
  then show ?case by simp
next
  case (Cons r rs)
  then show ?case
    by (simp add: fw_Write_IgnoreFile split: prod.splits option.splits)
qed

lemma fw_Close_IgnoreFile: "fw_Close (fw_IgnoreFile f w) st = fw_Close w st"
  by (cases w) (simp_all add: mfw_Close_def artifacts_def calculateFinalStats_def)

lemma processTextFile_IgnoreFile:
  "processTextFile env (cfg\<lparr>IgnoreFile := f\<rparr>) path = processTextFile env cfg path"
  by (simp add: processTextFile_def Let_def cong: sum.case_cong if_cong)

lemma processFile_IgnoreFile:
  "processFile env (cfg\<lparr>IgnoreFile := f\<rparr>) relPath = processFile env cfg relPath"
  by (simp add: processFile_def processTextFile_IgnoreFile Let_def cong: sum.case_cong if_cong)

lemma collectFiles_walk_IgnoreFile:
  assumes "InputDir (p_config q) = InputDir (p_config p)" "p_matcher q = p_matcher p"
  shows "collectFiles_walk env q es files st = collectFiles_walk env p es files st"
  using assms
  by (induction env p es files st rule: collectFiles_walk.induct)
     (simp_all split: sum.splits)

lemma NewProcessor_IgnoreFile:
  "NewProcessor (cfg\<lparr>IgnoreFile := f\<rparr>) =
     (NewProcessor cfg)\<lparr>p_config := (p_config (NewProcessor cfg))\<lparr>IgnoreFile := f\<rparr>,
                        p_writer := fw_IgnoreFile f (p_writer (NewProcessor cfg))\<rparr>"
  by (simp add: NewProcessor_def Let_def newMultiFileWriter_def createNewFile_def
        newSingleFileWriter_def artifacts_def)

lemma Process_IgnoreFile:
  "Process env (NewProcessor (cfg\<lparr>IgnoreFile := f\<rparr>)) = Process env (NewProcessor cfg)"
proof -
  let ?p = "NewProcessor cfg"
  let ?q = "?p\<lparr>p_config := (p_config ?p)\<lparr>IgnoreFile := f\<rparr>,
              p_writer := fw_IgnoreFile f (p_writer ?p)\<rparr>"
  have c: "collectFiles env ?q = collectFiles env ?p"
    by (simp add: collectFiles_def collectFiles_walk_IgnoreFile [of ?q ?p])
  have pf: "processFiles env ?q files = processFiles env ?p files" for files
    by (simp add: processFiles_def processFile_IgnoreFile)
  have "Process env ?q = Process env ?p"
    by (simp add: Process_def c pf Process_loop_IgnoreFile fw_Close_IgnoreFile
          split: prod.splits sum.splits)
  then show ?thesis by (simp only: NewProcessor_IgnoreFile)
qed




text \<open>
  Claim C5. For an input directory in which the walk meets directories only, the run
  returns no error, \<open>TotalFiles\<close> is 0, and the disk holds one artifact: an empty one in
  single mode, one that holds the marker and nothing else in split mode.
\<close>

theorem empty_directory_run:
  assumes dirs: "\<forall>e \<in> set (Walk env (InputDir cfg)). \<exists>d. e = DirEntry d"
    and arr: "mset (arrival env []) = mset []"
  shows "fst (Process env (NewProcessor cfg)) = None
       \<and> TotalFiles (fst (snd (Process env (NewProcessor cfg)))) = 0
       \<and> snd (snd (Process env (NewProcessor cfg))) = (if Split cfg then [utf8BOM] else [[]])"
proof -
  let ?p = "NewProcessor cfg"
  from dirs have "\<forall>e \<in> set (Walk env (InputDir (p_config ?p))). \<exists>d. e = DirEntry d"
    by (simp add: NewProcessor_stats)
  from collectFiles_walk_dirs [OF this]
  have c: "collectFiles env ?p = (Inr [], (p_stats ?p)\<lparr>TotalFiles := 0\<rparr>)"
    by (simp add: collectFiles_def)
  from arr have a: "arrival env [] = []" by simp
  show ?thesis
  proof (cases "Split cfg")
    case True
    with c a show ?thesis
      by (simp add: Process_def processFiles_def NewProcessor_def Let_def
            newMultiFileWriter_def createNewFile_def mfw_Close_def artifacts_def
            calculateFinalStats_counts)
  next
    case False
    with c a show ?thesis
      by (simp add: Process_def processFiles_def NewProcessor_def Let_def
            newSingleFileWriter_def sfw_Close_def)
  qed
qed

theorem empty_directory_run_witness:
  "Walk empty_world (InputDir cfg_single) = [DirEntry ''in'', DirEntry ''in/sub'']
   \<and> arrival empty_world [] = []
   \<and> fst (Process empty_world (NewProcessor cfg_single)) = None
   \<and> TotalFiles (fst (snd (Process empty_world (NewProcessor cfg_single)))) = 0
   \<and> snd (snd (Process empty_world (NewProcessor cfg_single))) = [[]]
   \<and> snd (snd (Process empty_world (NewProcessor cfg_split))) = [utf8BOM]"
proof -
  have w: "Walk empty_world ''in'' = [DirEntry ''in'', DirEntry ''in/sub'']"
    by (simp add: empty_world_def)
  have i: "InputDir cfg_single = ''in''" "InputDir cfg_split = ''in''"
    "\<not> Split cfg_single" "Split cfg_split"
    by (simp_all add: cfg_single_def cfg_split_def)
  have d1: "\<forall>e \<in> set (Walk empty_world (InputDir cfg_single)). \<exists>d. e = DirEntry d"
    and d2: "\<forall>e \<in> set (Walk empty_world (InputDir cfg_split)). \<exists>d. e = DirEntry d"
    by (simp_all add: w i)
  have a: "mset (arrival empty_world []) = mset []"
    by (simp add: empty_world_def demo_world_def)
  from empty_directory_run [OF d1 a] empty_directory_run [OF d2 a] w i a show ?thesis by simp
qed

text \<open>
  Claim C4. \<open>NewProcessor\<close> builds the matcher from no custom lines, so a path is ignored
  exactly when default ignores are on and the default lines match it. The name of the
  custom ignore file changes neither the matcher, nor the files collected, nor the
  outcome of the run (error, statistics, artifacts).
\<close>

theorem ignore_file_has_no_effect:
  "p_matcher (NewProcessor cfg) =
     \<lparr>customIgnore = None,
      defaultIgnore = (if UseDefaultIgnores cfg then Some DefaultIgnores else None)\<rparr>
   \<and> ShouldIgnore env (p_matcher (NewProcessor cfg)) path =
       (UseDefaultIgnores cfg \<and> MatchesPath env DefaultIgnores (ToSlash path))
   \<and> p_matcher (NewProcessor (cfg\<lparr>IgnoreFile := f\<rparr>)) = p_matcher (NewProcessor cfg)
   \<and> fst (collectFiles env (NewProcessor (cfg\<lparr>IgnoreFile := f\<rparr>)))
       = fst (collectFiles env (NewProcessor cfg))
   \<and> Process env (NewProcessor (cfg\<lparr>IgnoreFile := f\<rparr>)) = Process env (NewProcessor cfg)"
proof -
  have m: "p_matcher (NewProcessor cfg) =
     \<lparr>customIgnore = None,
      defaultIgnore = (if UseDefaultIgnores cfg then Some DefaultIgnores else None)\<rparr>" for cfg
    by (simp add: NewProcessor_def Let_def NewIgnoreMatcher_def split: prod.splits)
  have s: "ShouldIgnore env (p_matcher (NewProcessor cfg)) path =
       (UseDefaultIgnores cfg \<and> MatchesPath env DefaultIgnores (ToSlash path))"
    by (simp add: m ShouldIgnore_def Let_def)
  have c: "collectFiles env (NewProcessor (cfg\<lparr>IgnoreFile := f\<rparr>))
       = collectFiles env (NewProcessor cfg)"
    by (simp add: collectFiles_def NewProcessor_IgnoreFile
          collectFiles_walk_IgnoreFile [of "(NewProcessor cfg)\<lparr>p_config := (p_config (NewProcessor cfg))\<lparr>IgnoreFile := f\<rparr>,
                        p_writer := fw_IgnoreFile f (p_writer (NewProcessor cfg))\<rparr>" "NewProcessor cfg"])
  from m [of cfg] m [of "cfg\<lparr>IgnoreFile := f\<rparr>"] s c Process_IgnoreFile
  show ?thesis by simp
qed

end
